theory Spec2Isabelle
  imports Main
begin

section \<open>Schema-migration manager (backend/src/database/dbMigrate.ts)\<close>

text \<open>
  A shallow embedding of \<^verbatim>\<open>DatabaseMigrationManager\<close>.  Numbers are JavaScript
  numbers in the source; the model uses \<open>int\<close>, which agrees with them on every value
  below \<open>2 ^ 53\<close>.  File names and file texts are \<open>string\<close>s.  Paths are kept
  relative to the migration directory of the namespace, so that
  \<^verbatim>\<open>path.join(migrationDir, name)\<close> is the entry name itself, and the directory is an
  association list from entry names to the text \<^verbatim>\<open>fs.readFile(path, 'utf8')\<close> returns;
  \<^verbatim>\<open>fs.readdir\<close> lists its names in its order.  A function that can throw returns its
  error as a value, next to the database it leaves.
\<close>

subsection \<open>Data model\<close>

record MigrationFile =
  name :: string
  version :: int
  fullPath :: string

text \<open>
  A row of the table \<^verbatim>\<open>migrations\<close> as the query returns it
  (\<^verbatim>\<open>interface AppliedMigration\<close>: version, name, md5).  The driver renders the
  \<^verbatim>\<open>BIGINT\<close> column as a decimal string and the code reads it back with
  \<^verbatim>\<open>parseInt(r.version, 10)\<close>; the model keeps the number.
\<close>

record AppliedMigration =
  applied_version :: int
  applied_name :: string
  applied_md5 :: string

type_synonym directory = "(string \<times> string) list"

datatype error =
    SequenceViolation int string
  | TamperedMigration string string string
  | AppliedMigrationMissing string
  | FileNotFound string
  | SqlError string
  | LoadFailed string
  | MalformedMigration string
  | ScriptThrew string
  | ImportFailed string error
  | DuplicateVersion int
  | MigrationFailed string error
  | ConnectionFailed
  | ShutdownFailed

text \<open>
  What the code takes from outside: the digest of \<^verbatim>\<open>crypto\<close>, the effect of a
  statement batch sent with \<^verbatim>\<open>client.query(sql)\<close> on the data of the open
  transaction (a success flag and the data it leaves, which may hold part of the batch
  when it failed), the module a procedural script loads to (\<open>None\<close> when loading
  throws), and the outcomes of \<^verbatim>\<open>db.getDbClient()\<close>, \<^verbatim>\<open>fs.mkdir\<close> and
  \<^verbatim>\<open>db.shutdown()\<close> (\<open>None\<close> when the call succeeds).  Scripts act on the data
  \<open>'d\<close> of the namespace, not on the ledger table.
\<close>

datatype 'd migration_module =
    ModuleWithoutUp
  | ModuleWithUp "'d \<Rightarrow> bool \<times> 'd"

record 'd environment =
  md5_hex :: "string \<Rightarrow> string"
  run_sql :: "string \<Rightarrow> 'd \<Rightarrow> bool \<times> 'd"
  load_script :: "string \<Rightarrow> 'd migration_module option"
  getDbClient :: "error option"
  mkdir :: "error option"
  shutdown :: "error option"

text \<open>
  The connection: the rows of the ledger table, the committed data, the data of the open
  transaction (if one is open) and the statements that were sent to begin or end a
  transaction, to run a migration or to write the ledger.
\<close>

datatype statement =
    Begin
  | Commit
  | Rollback
  | RunMigration string
  | InsertRow int string string
  | DeleteRow int

record 'd database =
  migrations :: "AppliedMigration list"
  committed :: 'd
  working :: "'d option"
  statements :: "statement list"

subsection \<open>File helpers\<close>

definition endsWith :: "string \<Rightarrow> string \<Rightarrow> bool" where
  "endsWith s suffix =
     (length suffix \<le> length s \<and> drop (length s - length suffix) s = suffix)"

text \<open>The class \<^verbatim>\<open>\d\<close> of the regular expression, and the value of a digit.\<close>

definition isDigit :: "char \<Rightarrow> bool" where
  "isDigit c = (c \<in> set ''0123456789'')"

definition digitValue :: "char \<Rightarrow> nat" where
  "digitValue c = of_char c - of_char CHR ''0''"

text \<open>\<^verbatim>\<open>parseInt(digits, 10)\<close> on a run of decimal digits.\<close>

definition parseInt :: "string \<Rightarrow> nat" where
  "parseInt ds = foldl (\<lambda>acc c. 10 * acc + digitValue c) 0 ds"

text \<open>
  \<^verbatim>\<open>name.match(/^(\d+)-/)\<close>: the longest run of digits at the start of the name, not
  empty, followed by a hyphen.
\<close>

definition extractVersion :: "string \<Rightarrow> int option" where
  "extractVersion n =
     (let digits = takeWhile isDigit n; rest = dropWhile isDigit n
      in if digits \<noteq> [] \<and> take 1 rest = ''-'' then Some (int (parseInt digits)) else None)"

definition getFileMd5 :: "'d environment \<Rightarrow> directory \<Rightarrow> string \<Rightarrow> error + string" where
  "getFileMd5 env dir filePath =
     (case map_of dir filePath of
        None \<Rightarrow> Inl (FileNotFound filePath)
      | Some content \<Rightarrow> Inr (md5_hex env content))"

definition loadTypeScriptMigration ::
  "'d environment \<Rightarrow> directory \<Rightarrow> string \<Rightarrow> error + 'd migration_module" where
  "loadTypeScriptMigration env dir filePath =
     (case map_of dir filePath of
        None \<Rightarrow> Inl (LoadFailed filePath)
      | Some source \<Rightarrow>
          (case load_script env source of
             None \<Rightarrow> Inl (LoadFailed filePath)
           | Some m \<Rightarrow> Inr m))"

subsection \<open>Reading the ledger and computing the pending migrations\<close>

text \<open>
  \<^verbatim>\<open>CREATE SCHEMA IF NOT EXISTS\<close> and \<^verbatim>\<open>CREATE TABLE IF NOT EXISTS\<close> leave an
  existing ledger as it is (a missing table is the empty list of rows); the rows come
  back in the order of \<^verbatim>\<open>ORDER BY version\<close>.
\<close>

definition setupDBSchemaAndGetAppliedMigrations :: "'d database \<Rightarrow> AppliedMigration list" where
  "setupDBSchemaAndGetAppliedMigrations s = sort_key applied_version (migrations s)"

definition recognizedExtension :: "string \<Rightarrow> bool" where
  "recognizedExtension f = (endsWith f ''.js'' \<or> endsWith f ''.ts'' \<or> endsWith f ''.sql'')"

definition toMigrationFile :: "string \<Rightarrow> MigrationFile option" where
  "toMigrationFile f =
     (case extractVersion f of
        None \<Rightarrow> None
      | Some v \<Rightarrow> Some \<lparr>name = f, version = v, fullPath = f\<rparr>)"

definition allMigrations :: "string list \<Rightarrow> MigrationFile list" where
  "allMigrations files =
     sort_key version (List.map_filter toMigrationFile (filter recognizedExtension files))"

text \<open>The loop that prevents version skipping; \<open>expected\<close> is \<open>expectedNextVersion + i\<close>.\<close>

fun checkSequence :: "int \<Rightarrow> MigrationFile list \<Rightarrow> error option" where
  "checkSequence expected [] = None"
| "checkSequence expected (m # ms) =
     (if version m \<noteq> expected then Some (SequenceViolation expected (name m))
      else checkSequence (expected + 1) ms)"

text \<open>
  \<open>files\<close> is the listing \<^verbatim>\<open>fs.readdir(migrationDir)\<close> returns.  The sort is stable,
  as \<^verbatim>\<open>Array.prototype.sort\<close> is.
\<close>

definition getPendingMigration ::
  "AppliedMigration list \<Rightarrow> string list \<Rightarrow> error + MigrationFile list" where
  "getPendingMigration appliedMigrations files =
     (let appliedVersions = map applied_version appliedMigrations;
          lastAppliedVersion = (if appliedVersions = [] then 0 else last appliedVersions);
          expectedNextVersion = lastAppliedVersion + 1;
          pendingMigrations =
            filter (\<lambda>m. version m \<notin> set appliedVersions) (allMigrations files)
      in case checkSequence expectedNextVersion pendingMigrations of
           Some e \<Rightarrow> Inl e
         | None \<Rightarrow> Inr pendingMigrations)"

subsection \<open>The connection\<close>

text \<open>
  \<^verbatim>\<open>BEGIN\<close> opens a transaction on a copy of the committed data, \<^verbatim>\<open>COMMIT\<close> makes
  the copy the committed data and \<^verbatim>\<open>ROLLBACK\<close> drops it; the three statements
  themselves do not fail.  A migration's statements run on the data of the open
  transaction; with no transaction open each batch commits by itself when it succeeds.
\<close>

definition queryBegin :: "'d database \<Rightarrow> 'd database" where
  "queryBegin s =
     s\<lparr>working := Some (case working s of None \<Rightarrow> committed s | Some w \<Rightarrow> w),
       statements := statements s @ [Begin]\<rparr>"

definition queryCommit :: "'d database \<Rightarrow> 'd database" where
  "queryCommit s =
     s\<lparr>committed := (case working s of None \<Rightarrow> committed s | Some w \<Rightarrow> w),
       working := None,
       statements := statements s @ [Commit]\<rparr>"

definition queryRollback :: "'d database \<Rightarrow> 'd database" where
  "queryRollback s = s\<lparr>working := None, statements := statements s @ [Rollback]\<rparr>"

definition runStatements ::
  "string \<Rightarrow> ('d \<Rightarrow> bool \<times> 'd) \<Rightarrow> 'd database \<Rightarrow> bool \<times> 'd database" where
  "runStatements n f s =
     (let s' = s\<lparr>statements := statements s @ [RunMigration n]\<rparr>
      in case working s of
           Some w \<Rightarrow> (fst (f w), s'\<lparr>working := Some (snd (f w))\<rparr>)
         | None \<Rightarrow>
             (fst (f (committed s)),
              if fst (f (committed s)) then s'\<lparr>committed := snd (f (committed s))\<rparr> else s'))"

subsection \<open>The callbacks handed to the step runner\<close>

text \<open>The body of the \<^verbatim>\<open>try\<close> block of \<^verbatim>\<open>up\<close>, before \<^verbatim>\<open>COMMIT\<close>.\<close>

definition upBody ::
  "'d environment \<Rightarrow> directory \<Rightarrow> MigrationFile \<Rightarrow> 'd database \<Rightarrow> error option \<times> 'd database" where
  "upBody env dir m s =
     (if endsWith (name m) ''.sql'' then
        (case map_of dir (fullPath m) of
           None \<Rightarrow> (Some (FileNotFound (fullPath m)), s)
         | Some sql \<Rightarrow>
             (case runStatements (name m) (run_sql env sql) s of
                (True, s') \<Rightarrow> (None, s')
              | (False, s') \<Rightarrow> (Some (SqlError (name m)), s')))
      else
        (case loadTypeScriptMigration env dir (fullPath m) of
           Inl e \<Rightarrow> (Some (ImportFailed (name m) e), s)
         | Inr ModuleWithoutUp \<Rightarrow>
             (Some (ImportFailed (name m) (MalformedMigration (name m))), s)
         | Inr (ModuleWithUp f) \<Rightarrow>
             (case runStatements (name m) f s of
                (True, s') \<Rightarrow> (None, s')
              | (False, s') \<Rightarrow> (Some (ImportFailed (name m) (ScriptThrew (name m))), s'))))"

definition up ::
  "'d environment \<Rightarrow> directory \<Rightarrow> MigrationFile \<Rightarrow> 'd database \<Rightarrow> error option \<times> 'd database" where
  "up env dir m s =
     (case upBody env dir m (queryBegin s) of
        (None, s') \<Rightarrow> (None, queryCommit s')
      | (Some err, s') \<Rightarrow> (Some err, queryRollback s'))"

text \<open>The loop of \<^verbatim>\<open>executed\<close> over the applied rows.\<close>

fun validateApplied ::
  "'d environment \<Rightarrow> directory \<Rightarrow> AppliedMigration list \<Rightarrow> error option" where
  "validateApplied env dir [] = None"
| "validateApplied env dir (row # rows) =
     (case getFileMd5 env dir (applied_name row) of
        Inl (FileNotFound p) \<Rightarrow> Some (AppliedMigrationMissing (applied_name row))
      | Inl e \<Rightarrow> Some e
      | Inr currentMd5 \<Rightarrow>
          (if currentMd5 \<noteq> applied_md5 row
           then Some (TamperedMigration (applied_name row) (applied_md5 row) currentMd5)
           else validateApplied env dir rows))"

definition executed ::
  "'d environment \<Rightarrow> directory \<Rightarrow> AppliedMigration list \<Rightarrow> error + string list" where
  "executed env dir appliedMigrations =
     (case validateApplied env dir appliedMigrations of
        Some e \<Rightarrow> Inl e
      | None \<Rightarrow> Inr (map applied_name appliedMigrations))"

text \<open>
  \<^verbatim>\<open>INSERT INTO migrations\<close>: the primary key on \<^verbatim>\<open>version\<close> rejects a version the
  table already has.
\<close>

definition insertRow :: "AppliedMigration \<Rightarrow> 'd database \<Rightarrow> error option \<times> 'd database" where
  "insertRow row s =
     (if applied_version row \<in> set (map applied_version (migrations s))
      then (Some (DuplicateVersion (applied_version row)), s)
      else (None,
            s\<lparr>migrations := migrations s @ [row],
              statements := statements s @
                [InsertRow (applied_version row) (applied_name row) (applied_md5 row)]\<rparr>))"

definition logMigration ::
  "'d environment \<Rightarrow> directory \<Rightarrow> MigrationFile \<Rightarrow> 'd database \<Rightarrow> error option \<times> 'd database" where
  "logMigration env dir m s =
     (case extractVersion (name m) of
        None \<Rightarrow> (None, s)
      | Some v \<Rightarrow>
          (case getFileMd5 env dir (fullPath m) of
             Inl e \<Rightarrow> (Some e, s)
           | Inr md5 \<Rightarrow>
               insertRow \<lparr>applied_version = v, applied_name = name m, applied_md5 = md5\<rparr> s))"

definition unlogMigration :: "string \<Rightarrow> 'd database \<Rightarrow> error option \<times> 'd database" where
  "unlogMigration n s =
     (case extractVersion n of
        None \<Rightarrow> (None, s)
      | Some v \<Rightarrow>
          (None,
           s\<lparr>migrations := filter (\<lambda>row. applied_version row \<noteq> v) (migrations s),
             statements := statements s @ [DeleteRow v]\<rparr>))"

subsection \<open>The step runner and the run of one namespace\<close>

text \<open>
  Modelled from the spec: the step runner \<^verbatim>\<open>umzug.up()\<close> is the library Umzug, which
  is not under src/.  Section 4.6 of the spec gives its contract: the check of the applied
  migrations (\<^verbatim>\<open>storage.executed\<close>) runs once, before any pending migration; the
  pending migrations run strictly one after the other; after a migration's \<^verbatim>\<open>up\<close>
  succeeds its ledger entry is appended (\<^verbatim>\<open>storage.logMigration\<close>) and the next one
  starts; a failure stops the run and is propagated as \<open>MigrationFailed\<close> with the name
  and the cause.  As in the library, a migration whose name \<^verbatim>\<open>storage.executed\<close>
  reports is skipped.
\<close>

fun runPending ::
  "'d environment \<Rightarrow> directory \<Rightarrow> MigrationFile list \<Rightarrow> 'd database \<Rightarrow> error option \<times> 'd database" where
  "runPending env dir [] s = (None, s)"
| "runPending env dir (m # ms) s =
     (case up env dir m s of
        (Some cause, s') \<Rightarrow> (Some (MigrationFailed (name m) cause), s')
      | (None, s') \<Rightarrow>
          (case logMigration env dir m s' of
             (Some e, s'') \<Rightarrow> (Some e, s'')
           | (None, s'') \<Rightarrow> runPending env dir ms s''))"

text \<open>
  Modelled from the spec: \<^verbatim>\<open>umzug.up()\<close> as a whole (section 4.6, the pre-flight
  integrity check and then the pending migrations); a failure of the check leaves the
  database untouched.
\<close>

definition umzugUp ::
  "'d environment \<Rightarrow> directory \<Rightarrow> AppliedMigration list \<Rightarrow> MigrationFile list \<Rightarrow>
   'd database \<Rightarrow> error option \<times> 'd database" where
  "umzugUp env dir appliedMigrations pendingMigrations s =
     (case executed env dir appliedMigrations of
        Inl e \<Rightarrow> (Some e, s)
      | Inr executedNames \<Rightarrow>
          runPending env dir
            (filter (\<lambda>m. name m \<notin> set executedNames) pendingMigrations) s)"

definition runMigrationForSchema ::
  "'d environment \<Rightarrow> directory \<Rightarrow> 'd database \<Rightarrow> error option \<times> 'd database" where
  "runMigrationForSchema env dir s =
     (case getDbClient env of
        Some e \<Rightarrow> (Some e, s)
      | None \<Rightarrow>
          (case mkdir env of
             Some e \<Rightarrow> (Some e, s)
           | None \<Rightarrow>
               (let appliedMigrations = setupDBSchemaAndGetAppliedMigrations s
                in case getPendingMigration appliedMigrations (map fst dir) of
                     Inl e \<Rightarrow> (Some e, s)
                   | Inr pendingMigrations \<Rightarrow>
                       (case umzugUp env dir appliedMigrations pendingMigrations s of
                          (Some e, s') \<Rightarrow> (Some e, s')
                        | (None, s') \<Rightarrow> (None, queryCommit s')))))"

subsection \<open>The top-level driver\<close>

datatype logLine =
    LogInfo string
  | LogError string error

text \<open>The \<^verbatim>\<open>try\<close> block of \<^verbatim>\<open>handleMigration\<close>.\<close>

definition handleMigrationBody ::
  "'d environment \<Rightarrow> directory \<Rightarrow> 'd database \<Rightarrow> error option \<times> 'd database" where
  "handleMigrationBody env dir s =
     (case runMigrationForSchema env dir s of
        (Some e, s') \<Rightarrow> (Some e, s')
      | (None, s') \<Rightarrow>
          (case getDbClient env of
             Some e \<Rightarrow> (Some e, s')
           | None \<Rightarrow> (shutdown env, s')))"

text \<open>
  The first component is the exception that leaves \<^verbatim>\<open>handleMigration\<close>, the second
  the lines it logs itself.
\<close>

definition handleMigration ::
  "'d environment \<Rightarrow> directory \<Rightarrow> 'd database \<Rightarrow> error option \<times> logLine list \<times> 'd database" where
  "handleMigration env dir s =
     (case handleMigrationBody env dir s of
        (Some e, s') \<Rightarrow> (None, [LogError ''Migration process failed:'' e], s')
      | (None, s') \<Rightarrow> (None, [LogInfo ''All migrations completed''], s'))"

text \<open>The exit status of the process, with the lines logged and the database it leaves.\<close>

definition main ::
  "'d environment \<Rightarrow> directory \<Rightarrow> 'd database \<Rightarrow> nat \<times> logLine list \<times> 'd database" where
  "main env dir s =
     (case handleMigration env dir s of
        (Some e, logged, s') \<Rightarrow>
          (1, logged @ [LogError ''Fatal error in main function:'' e], s')
      | (None, logged, s') \<Rightarrow>
          (0, logged @ [LogInfo ''Migration script exiting...''], s'))"

subsection \<open>A small environment for concrete runs\<close>

text \<open>
  A stand-in for the outside world, used where a statement is evaluated on concrete files:
  the data of a namespace is the list of batches that took effect, a batch fails when its
  text is \<open>SELECT 1/0;\<close> (leaving a partial effect in the open transaction), and the
  digest is a stand-in for MD5.
\<close>

definition demoSql :: "string \<Rightarrow> string list \<Rightarrow> bool \<times> string list" where
  "demoSql sql w =
     (if sql = ''SELECT 1/0;'' then (False, w @ [''partial'']) else (True, w @ [sql]))"

definition demoLoad :: "string \<Rightarrow> string list migration_module option" where
  "demoLoad source =
     (if source = ''export up'' then Some (ModuleWithUp (\<lambda>w. (True, w @ [''up''])))
      else if source = ''export up throws'' then Some (ModuleWithUp (\<lambda>w. (False, w @ [''partial''])))
      else if source = ''export nothing'' then Some ModuleWithoutUp
      else None)"

definition demoEnv :: "string list environment" where
  "demoEnv =
     \<lparr>md5_hex = (\<lambda>content. ''md5:'' @ content),
      run_sql = demoSql,
      load_script = demoLoad,
      getDbClient = None,
      mkdir = None,
      shutdown = None\<rparr>"

definition emptyDb :: "string list database" where
  "emptyDb = \<lparr>migrations = [], committed = [], working = None, statements = []\<rparr>"

subsection \<open>The notions of the spec\<close>

text \<open>
  The last applied version in the words of the spec: the greatest version of the ledger,
  or 0 when nothing is applied.
\<close>

definition spec_lastApplied :: "AppliedMigration list \<Rightarrow> int" where
  "spec_lastApplied rows = (if rows = [] then 0 else Max (applied_version ` set rows))"



text \<open>
  The ledger entry of a migration, with the fingerprint of the text its file holds (no
  entry when the file cannot be read), and the statements of a migration that is applied:
  its transaction, committed, and then the insertion of its ledger entry.
\<close>

definition spec_ledgerRows :: "'d environment \<Rightarrow> directory \<Rightarrow> MigrationFile \<Rightarrow> AppliedMigration list" where
  "spec_ledgerRows env dir m =
     (case map_of dir (fullPath m) of
        None \<Rightarrow> []
      | Some text \<Rightarrow>
          [\<lparr>applied_version = version m, applied_name = name m, applied_md5 = md5_hex env text\<rparr>])"

definition spec_appliedStatements :: "'d environment \<Rightarrow> directory \<Rightarrow> MigrationFile \<Rightarrow> statement list" where
  "spec_appliedStatements env dir m =
     [Begin, RunMigration (name m), Commit] @
     map (\<lambda>row. InsertRow (applied_version row) (applied_name row) (applied_md5 row))
       (spec_ledgerRows env dir m)"

text \<open>
  Every row of the ledger has the version that its name parses to, as the rows that
  \<open>logMigration\<close> writes have.
\<close>

definition ledgerNamesMatch :: "'d database \<Rightarrow> bool" where
  "ledgerNamesMatch s =
     (\<forall>row\<in>set (migrations s). extractVersion (applied_name row) = Some (applied_version row))"

text \<open>What \<open>allMigrations\<close> builds: the version is parsed from the name, the path is the name.\<close>

definition discovered :: "MigrationFile \<Rightarrow> bool" where
  "discovered m = (extractVersion (name m) = Some (version m) \<and> fullPath m = name m)"

text \<open>A ledger with versions 1 and 2 applied, its rows in the order they are stored.\<close>

definition ledger12 :: "string list database" where
  "ledger12 =
     emptyDb\<lparr>migrations :=
       [\<lparr>applied_version = 2, applied_name = ''2-b.sql'', applied_md5 = ''md5:b''\<rparr>,
        \<lparr>applied_version = 1, applied_name = ''1-a.sql'', applied_md5 = ''md5:a''\<rparr>]\<rparr>"

text \<open>
  The database after \<open>1-init.sql\<close> was applied to the empty one, a directory of two
  files with the database after both were applied, and a directory whose second file
  fails.
\<close>

definition ledger1 :: "string list database" where
  "ledger1 =
     \<lparr>migrations =
        [\<lparr>applied_version = 1, applied_name = ''1-init.sql'', applied_md5 = ''md5:CREATE TABLE t;''\<rparr>],
      committed = [''CREATE TABLE t;''],
      working = None,
      statements =
        [Begin, RunMigration ''1-init.sql'', Commit,
         InsertRow 1 ''1-init.sql'' ''md5:CREATE TABLE t;'']\<rparr>"







section \<open>Properties\<close>

text \<open>The definitions that a concrete evaluation unfolds.\<close>

lemmas eval_defs = allMigrations_def recognizedExtension_def endsWith_def toMigrationFile_def
  extractVersion_def isDigit_def parseInt_def digitValue_def
  setupDBSchemaAndGetAppliedMigrations_def emptyDb_def demoEnv_def

lemmas run_defs = runMigrationForSchema_def umzugUp_def executed_def getPendingMigration_def
  up_def upBody_def runStatements_def queryBegin_def queryCommit_def queryRollback_def
  logMigration_def insertRow_def getFileMd5_def loadTypeScriptMigration_def demoSql_def
  demoLoad_def Let_def handleMigration_def handleMigrationBody_def main_def

subsection \<open>The sequence check\<close>

lemma checkSequence_None_iff:
  "checkSequence e ms = None \<longleftrightarrow> (\<forall>i<length ms. version (ms ! i) = e + int i)"
proof (induction ms arbitrary: e)
  case Nil
  then show ?case by simp
next
  case (Cons m ms)
  show ?case
  proof (cases "version m = e")
    case True
    have "(\<forall>i<length ms. version (ms ! i) = e + 1 + int i)
          \<longleftrightarrow> (\<forall>i<length (m # ms). version ((m # ms) ! i) = e + int i)"
      using True by (auto simp: nth_Cons split: nat.splits)
    then show ?thesis using True Cons.IH [of "e + 1"] by simp
  next
    case False
    then show ?thesis by auto
  qed
qed


lemma sorted_last_Max:
  fixes xs :: "int list"
  assumes "sorted xs" "xs \<noteq> []"
  shows "last xs = Max (set xs)"
proof -
  have "\<forall>x\<in>set xs. x \<le> last xs"
  proof
    fix x assume "x \<in> set xs"
    then obtain i where i: "i < length xs" "xs ! i = x" by (auto simp: in_set_conv_nth)
    then have "xs ! i \<le> xs ! (length xs - 1)"
      using assms(1) by (intro sorted_nth_mono) auto
    then show "x \<le> last xs" using i assms(2) by (simp add: last_conv_nth)
  qed
  moreover have "last xs \<in> set xs" using assms(2) by simp
  ultimately have "Max (set xs) = last xs" by (intro Max_eqI) auto
  then show ?thesis by simp
qed

lemma set_map_filter: "set (List.map_filter f xs) = {y. \<exists>x\<in>set xs. f x = Some y}"
  by (induction xs) (auto split: option.splits)

lemma set_allMigrations:
  "set (allMigrations files) =
     {\<lparr>name = f, version = v, fullPath = f\<rparr> | f v.
        f \<in> set files \<and> recognizedExtension f \<and> extractVersion f = Some v}"
  by (auto simp: allMigrations_def set_map_filter toMigrationFile_def split: option.splits)

lemma sorted_allMigrations: "sorted (map version (allMigrations files))"
  by (simp add: allMigrations_def)


lemma lastAppliedVersion_sorted:
  assumes "sorted (map applied_version rows)"
  shows "(if map applied_version rows = [] then 0 else last (map applied_version rows))
           = spec_lastApplied rows"
proof (cases "rows = []")
  case True
  then show ?thesis by (simp add: spec_lastApplied_def)
next
  case False
  then have "last (map applied_version rows) = Max (set (map applied_version rows))"
    using assms by (intro sorted_last_Max) auto
  then show ?thesis using False by (simp add: spec_lastApplied_def)
qed

lemma spec_lastApplied_setup:
  "spec_lastApplied (setupDBSchemaAndGetAppliedMigrations s) = spec_lastApplied (migrations s)"
proof -
  have "sort_key applied_version (migrations s) = [] \<longleftrightarrow> migrations s = []"
    by (metis length_sort length_0_conv)
  then show ?thesis
    by (simp add: spec_lastApplied_def setupDBSchemaAndGetAppliedMigrations_def)
qed

lemma getPendingMigration_sorted:
  assumes "sorted (map applied_version rows)"
  shows "getPendingMigration rows files =
     (case checkSequence (spec_lastApplied rows + 1)
             (filter (\<lambda>m. version m \<notin> applied_version ` set rows) (allMigrations files)) of
        Some e \<Rightarrow> Inl e
      | None \<Rightarrow> Inr (filter (\<lambda>m. version m \<notin> applied_version ` set rows) (allMigrations files)))"
  using lastAppliedVersion_sorted [OF assms]
  by (simp add: getPendingMigration_def Let_def split: option.split)

lemma getPendingMigration_setup:
  "getPendingMigration (setupDBSchemaAndGetAppliedMigrations s) files =
     (case checkSequence (spec_lastApplied (migrations s) + 1)
             (filter (\<lambda>m. version m \<notin> applied_version ` set (migrations s)) (allMigrations files)) of
        Some e \<Rightarrow> Inl e
      | None \<Rightarrow> Inr (filter (\<lambda>m. version m \<notin> applied_version ` set (migrations s)) (allMigrations files)))"
proof -
  have "sorted (map applied_version (setupDBSchemaAndGetAppliedMigrations s))"
    by (simp add: setupDBSchemaAndGetAppliedMigrations_def)
  moreover have "set (setupDBSchemaAndGetAppliedMigrations s) = set (migrations s)"
    by (simp add: setupDBSchemaAndGetAppliedMigrations_def)
  ultimately show ?thesis
    by (simp add: getPendingMigration_sorted spec_lastApplied_setup split: option.split)
qed

lemma contiguous_versions:
  assumes "\<forall>i<length ms. version (ms ! i) = e + int i"
  shows "map version ms = map (\<lambda>i. e + int i) [0..<length ms]"
    and "sorted_wrt (\<lambda>a b. version a < version b) ms"
proof -
  show "map version ms = map (\<lambda>i. e + int i) [0..<length ms]"
    using assms by (intro nth_equalityI) auto
  show "sorted_wrt (\<lambda>a b. version a < version b) ms"
    using assms by (simp add: sorted_wrt_iff_nth_less)
qed





subsection \<open>Discovery of migration files\<close>











subsection \<open>Ledger writes for a name without a version\<close>


text \<open>
  Claim C10.  For a migration whose name has no leading version (the regular expression
  does not match, so \<open>extractVersion\<close> gives \<open>None\<close>), \<open>logMigration\<close> and
  \<open>unlogMigration\<close> both return without an error and leave the database, and with it
  the ledger, exactly as it was: no row is inserted or deleted and no statement is sent.
\<close>

theorem log_unlog_without_version_noop:
  "extractVersion (name m) = None \<Longrightarrow>
     logMigration env dir m s = (None, s) \<and> unlogMigration (name m) s = (None, s)"
  by (simp add: logMigration_def unlogMigration_def)

theorem log_unlog_witness:
  "extractVersion ''readme.sql'' = None
   \<and> logMigration demoEnv [(''readme.sql'', ''text'')]
        \<lparr>name = ''readme.sql'', version = 0, fullPath = ''readme.sql''\<rparr> ledger12 = (None, ledger12)
   \<and> unlogMigration ''readme.sql'' ledger12 = (None, ledger12)"
proof -
  have h: "extractVersion (name \<lparr>name = ''readme.sql'', version = 0, fullPath = ''readme.sql''\<rparr>) = None"
    by (simp add: extractVersion_def isDigit_def)
  from h log_unlog_without_version_noop
    [where m = "\<lparr>name = ''readme.sql'', version = 0, fullPath = ''readme.sql''\<rparr>"
       and env = demoEnv and dir = "[(''readme.sql'', ''text'')]" and s = ledger12]
  show ?thesis by simp
qed

subsection \<open>Two files with the same version\<close>




subsection \<open>The callbacks and the step runner\<close>

lemma up_unchanged:
  assumes "up env dir m s = (r, s')"
  shows "migrations s' = migrations s" and "working s' = None"
  using assms
  by (auto simp: up_def upBody_def runStatements_def queryBegin_def queryCommit_def
      queryRollback_def Let_def
      split: if_splits option.splits sum.splits migration_module.splits prod.splits bool.splits)

lemma up_failure:
  assumes "up env dir m s = (Some e, s')"
  shows "committed s' = committed s"
    and "statements s' = statements s @ [Begin, Rollback]
         \<or> statements s' = statements s @ [Begin, RunMigration (name m), Rollback]"
  using assms
  by (auto simp: up_def upBody_def runStatements_def queryBegin_def queryCommit_def
      queryRollback_def Let_def
      split: if_splits option.splits sum.splits migration_module.splits prod.splits bool.splits)

lemma up_success:
  assumes "up env dir m s = (None, s')"
  shows "statements s' = statements s @ [Begin, RunMigration (name m), Commit]"
  using assms
  by (auto simp: up_def upBody_def runStatements_def queryBegin_def queryCommit_def
      queryRollback_def Let_def
      split: if_splits option.splits sum.splits migration_module.splits prod.splits bool.splits)



lemma logMigration_discovered:
  assumes "discovered m"
  shows "logMigration env dir m s =
     (case map_of dir (name m) of
        None \<Rightarrow> (Some (FileNotFound (name m)), s)
      | Some text \<Rightarrow>
          insertRow \<lparr>applied_version = version m, applied_name = name m,
                     applied_md5 = md5_hex env text\<rparr> s)"
  using assms
  by (simp add: discovered_def logMigration_def getFileMd5_def split: option.splits)

lemma logMigration_success:
  assumes "discovered m" "logMigration env dir m s = (None, s')"
  shows "migrations s' = migrations s @ spec_ledgerRows env dir m"
    and "statements s' = statements s @
           map (\<lambda>row. InsertRow (applied_version row) (applied_name row) (applied_md5 row))
             (spec_ledgerRows env dir m)"
    and "committed s' = committed s" and "working s' = working s"
    and "spec_ledgerRows env dir m \<noteq> []"
    and "version m \<notin> applied_version ` set (migrations s)"
  using assms
  by (auto simp: logMigration_discovered insertRow_def spec_ledgerRows_def discovered_def
      split: option.splits if_splits)

lemma logMigration_failure:
  assumes "logMigration env dir m s = (Some e, s')"
  shows "s' = s"
  using assms
  by (auto simp: logMigration_def insertRow_def split: option.splits sum.splits if_splits)





lemma validateApplied_None_iff:
  "validateApplied env dir rows = None \<longleftrightarrow>
     (\<forall>row\<in>set rows. getFileMd5 env dir (applied_name row) = Inr (applied_md5 row))"
  by (induction rows) (auto simp: getFileMd5_def split: option.splits)

lemma validateApplied_append:
  "validateApplied env dir (xs @ ys) =
     (case validateApplied env dir xs of Some e \<Rightarrow> Some e | None \<Rightarrow> validateApplied env dir ys)"
  by (induction xs) (auto simp: getFileMd5_def split: option.splits)

lemma validateApplied_tampered:
  assumes "validateApplied env dir before = None"
    and "map_of dir (applied_name row) = Some text" "md5_hex env text \<noteq> applied_md5 row"
  shows "validateApplied env dir (before @ row # after)
           = Some (TamperedMigration (applied_name row) (applied_md5 row) (md5_hex env text))"
  using assms by (simp add: validateApplied_append getFileMd5_def)

lemma validateApplied_missing:
  assumes "validateApplied env dir before = None"
    and "map_of dir (applied_name row) = None"
  shows "validateApplied env dir (before @ row # after)
           = Some (AppliedMigrationMissing (applied_name row))"
  using assms by (simp add: validateApplied_append getFileMd5_def)

lemma validateApplied_detects:
  assumes "row \<in> set rows" "getFileMd5 env dir (applied_name row) \<noteq> Inr (applied_md5 row)"
  shows "\<exists>e. validateApplied env dir rows = Some e"
  using assms validateApplied_None_iff [of env dir rows] by (cases "validateApplied env dir rows") auto

lemma runMigrationForSchema_integrity_fails:
  assumes "validateApplied env dir (setupDBSchemaAndGetAppliedMigrations s) = Some e"
  shows "\<exists>e'. runMigrationForSchema env dir s = (Some e', s)"
  using assms
  by (auto simp: runMigrationForSchema_def umzugUp_def executed_def Let_def
      split: option.splits sum.splits)

lemma runMigrationForSchema_integrity_error:
  assumes "getDbClient env = None" "mkdir env = None"
    and "getPendingMigration (setupDBSchemaAndGetAppliedMigrations s) (map fst dir) = Inr pending"
    and "validateApplied env dir (setupDBSchemaAndGetAppliedMigrations s) = Some e"
  shows "runMigrationForSchema env dir s = (Some e, s)"
  using assms
  by (simp add: runMigrationForSchema_def umzugUp_def executed_def)

lemma runMigrationForSchema_pending:
  assumes "getDbClient env = None" "mkdir env = None"
    and "getPendingMigration (setupDBSchemaAndGetAppliedMigrations s) (map fst dir) = Inr pending"
    and "validateApplied env dir (setupDBSchemaAndGetAppliedMigrations s) = None"
  shows "runMigrationForSchema env dir s =
     (case runPending env dir
             (filter (\<lambda>m. name m \<notin> applied_name ` set (migrations s)) pending) s of
        (Some e, s') \<Rightarrow> (Some e, s')
      | (None, s') \<Rightarrow> (None, queryCommit s'))"
  using assms
  by (simp add: runMigrationForSchema_def umzugUp_def executed_def
      setupDBSchemaAndGetAppliedMigrations_def)

lemma runMigrationForSchema_early:
  "(\<exists>e. runMigrationForSchema env dir s = (Some e, s))
   \<or> (\<exists>pending. getDbClient env = None \<and> mkdir env = None
        \<and> getPendingMigration (setupDBSchemaAndGetAppliedMigrations s) (map fst dir) = Inr pending
        \<and> validateApplied env dir (setupDBSchemaAndGetAppliedMigrations s) = None)"
  by (auto simp: runMigrationForSchema_def umzugUp_def executed_def Let_def
      split: option.splits sum.splits)

lemma pending_properties:
  assumes "getPendingMigration (setupDBSchemaAndGetAppliedMigrations s) files = Inr pending"
  shows "set pending = {m \<in> set (allMigrations files).
                          version m \<notin> applied_version ` set (migrations s)}"
    and "sorted_wrt (\<lambda>a b. version a < version b) pending"
    and "\<forall>m\<in>set pending. discovered m"
    and "\<forall>m\<in>set pending. name m \<in> set files"
proof -
  let ?cand = "filter (\<lambda>m. version m \<notin> applied_version ` set (migrations s)) (allMigrations files)"
  let ?e = "spec_lastApplied (migrations s) + 1"
  from assms have c: "checkSequence ?e ?cand = None" and p: "pending = ?cand"
    by (auto simp: getPendingMigration_setup split: option.splits)
  from p show 1: "set pending = {m \<in> set (allMigrations files).
                          version m \<notin> applied_version ` set (migrations s)}" by auto
  from c have "\<forall>i<length ?cand. version (?cand ! i) = ?e + int i"
    by (simp add: checkSequence_None_iff)
  from contiguous_versions(2) [OF this] p
  show "sorted_wrt (\<lambda>a b. version a < version b) pending" by simp
  from 1 show "\<forall>m\<in>set pending. discovered m"
    by (auto simp: set_allMigrations discovered_def)
  from 1 show "\<forall>m\<in>set pending. name m \<in> set files"
    by (auto simp: set_allMigrations)
qed

lemma pending_not_executed:
  assumes "ledgerNamesMatch s"
    and "getPendingMigration (setupDBSchemaAndGetAppliedMigrations s) files = Inr pending"
  shows "filter (\<lambda>m. name m \<notin> applied_name ` set (migrations s)) pending = pending"
proof -
  have "\<forall>m\<in>set pending. name m \<notin> applied_name ` set (migrations s)"
  proof
    fix m assume m: "m \<in> set pending"
    show "name m \<notin> applied_name ` set (migrations s)"
    proof
      assume "name m \<in> applied_name ` set (migrations s)"
      then obtain row where row: "row \<in> set (migrations s)" "name m = applied_name row" by auto
      with assms(1) have "extractVersion (name m) = Some (applied_version row)"
        by (simp add: ledgerNamesMatch_def)
      moreover from m pending_properties(3) [OF assms(2)]
      have "extractVersion (name m) = Some (version m)" by (simp add: discovered_def)
      ultimately have "version m \<in> applied_version ` set (migrations s)" using row(1) by auto
      with m pending_properties(1) [OF assms(2)] show False by simp
    qed
  qed
  then show ?thesis by (simp add: filter_id_conv)
qed


lemma earlier_rows_checked_first:
  assumes "row \<in> set (migrations s)"
    and "\<forall>other\<in>set (migrations s). other \<noteq> row \<and> applied_version other \<le> applied_version row
           \<longrightarrow> getFileMd5 env dir (applied_name other) = Inr (applied_md5 other)"
  shows "\<exists>before after. setupDBSchemaAndGetAppliedMigrations s = before @ row # after
           \<and> validateApplied env dir before = None"
proof -
  let ?xs = "sort_key applied_version (migrations s)"
  from assms(1) have "row \<in> set ?xs" by simp
  then obtain before after where split: "?xs = before @ row # after" "row \<notin> set before"
    by (meson split_list_first)
  have "sorted (map applied_version ?xs)" by simp
  with split(1) have le: "\<forall>other\<in>set before. applied_version other \<le> applied_version row"
    by (auto simp: sorted_append)
  have "set before \<subseteq> set (migrations s)"
  proof -
    have "set before \<subseteq> set ?xs" using split(1) by auto
    then show ?thesis by simp
  qed
  with le split(2) assms(2)
  have "\<forall>other\<in>set before. getFileMd5 env dir (applied_name other) = Inr (applied_md5 other)"
    by auto
  then have "validateApplied env dir before = None" by (simp add: validateApplied_None_iff)
  with split(1) show ?thesis by (auto simp: setupDBSchemaAndGetAppliedMigrations_def)
qed

lemma no_injective_fixed_length_digest:
  fixes f :: "string \<Rightarrow> string"
  assumes "\<forall>t. length (f t) = n"
  shows "\<not> inj f"
proof
  assume i: "inj f"
  have "range f \<subseteq> {xs. set xs \<subseteq> UNIV \<and> length xs = n}" using assms by auto
  moreover have "finite {xs :: string. set xs \<subseteq> UNIV \<and> length xs = n}"
    by (rule finite_lists_length_eq) simp
  ultimately have "finite (range f)" by (rule finite_subset)
  with i have "finite (UNIV :: string set)" by (metis finite_imageD)
  then show False by (simp add: infinite_UNIV_listI)
qed

subsection \<open>The check of the applied migrations\<close>

text \<open>
  Claim C2, as amended.  When the file of an applied ledger entry is on disk with a text
  whose fingerprint differs from the recorded one, the next run of the namespace fails
  and leaves the database exactly as it was: no pending migration is executed and nothing
  is written.  The failure is the MD5 mismatch error for that file, with the recorded and
  the found fingerprint, when the connection and the directory are available, the
  sequence check passes and every other applied entry of an equal or lower version is
  intact; otherwise it is the failure met first.  The fingerprint depends on the text of
  the file only.
\<close>

theorem tampered_applied_migration_stops_run:
  assumes "row \<in> set (migrations s)"
    and "map_of dir (applied_name row) = Some text"
    and "md5_hex env text \<noteq> applied_md5 row"
  shows "(\<exists>e. runMigrationForSchema env dir s = (Some e, s))
    \<and> (getDbClient env = None \<and> mkdir env = None
        \<and> (\<exists>pending. getPendingMigration (setupDBSchemaAndGetAppliedMigrations s) (map fst dir)
                        = Inr pending)
        \<and> (\<forall>other\<in>set (migrations s).
              other \<noteq> row \<and> applied_version other \<le> applied_version row
              \<longrightarrow> getFileMd5 env dir (applied_name other) = Inr (applied_md5 other))
        \<longrightarrow> runMigrationForSchema env dir s
              = (Some (TamperedMigration (applied_name row) (applied_md5 row) (md5_hex env text)), s))
    \<and> (\<forall>dir' path. map_of dir' path = Some text
          \<longrightarrow> getFileMd5 env dir' path = getFileMd5 env dir (applied_name row))"
proof (intro conjI)
  have "getFileMd5 env dir (applied_name row) \<noteq> Inr (applied_md5 row)"
    using assms(2,3) by (simp add: getFileMd5_def)
  moreover from assms(1) have "row \<in> set (setupDBSchemaAndGetAppliedMigrations s)"
    by (simp add: setupDBSchemaAndGetAppliedMigrations_def)
  ultimately obtain e where "validateApplied env dir (setupDBSchemaAndGetAppliedMigrations s) = Some e"
    using validateApplied_detects by blast
  then show "\<exists>e. runMigrationForSchema env dir s = (Some e, s)"
    by (rule runMigrationForSchema_integrity_fails)
next
  show "getDbClient env = None \<and> mkdir env = None
        \<and> (\<exists>pending. getPendingMigration (setupDBSchemaAndGetAppliedMigrations s) (map fst dir)
                        = Inr pending)
        \<and> (\<forall>other\<in>set (migrations s).
              other \<noteq> row \<and> applied_version other \<le> applied_version row
              \<longrightarrow> getFileMd5 env dir (applied_name other) = Inr (applied_md5 other))
        \<longrightarrow> runMigrationForSchema env dir s
              = (Some (TamperedMigration (applied_name row) (applied_md5 row) (md5_hex env text)), s)"
  proof
    assume a: "getDbClient env = None \<and> mkdir env = None
        \<and> (\<exists>pending. getPendingMigration (setupDBSchemaAndGetAppliedMigrations s) (map fst dir)
                        = Inr pending)
        \<and> (\<forall>other\<in>set (migrations s).
              other \<noteq> row \<and> applied_version other \<le> applied_version row
              \<longrightarrow> getFileMd5 env dir (applied_name other) = Inr (applied_md5 other))"
    then obtain pending where p:
      "getPendingMigration (setupDBSchemaAndGetAppliedMigrations s) (map fst dir) = Inr pending"
      by blast
    from a earlier_rows_checked_first [OF assms(1)] obtain before after where
      "setupDBSchemaAndGetAppliedMigrations s = before @ row # after"
      "validateApplied env dir before = None" by blast
    with validateApplied_tampered [OF _ assms(2,3)]
    have "validateApplied env dir (setupDBSchemaAndGetAppliedMigrations s)
            = Some (TamperedMigration (applied_name row) (applied_md5 row) (md5_hex env text))"
      by simp
    with a p show "runMigrationForSchema env dir s
              = (Some (TamperedMigration (applied_name row) (applied_md5 row) (md5_hex env text)), s)"
      by (simp add: runMigrationForSchema_integrity_error)
  qed
next
  show "\<forall>dir' path. map_of dir' path = Some text
          \<longrightarrow> getFileMd5 env dir' path = getFileMd5 env dir (applied_name row)"
    using assms(2) by (simp add: getFileMd5_def)
qed

theorem tampered_witness:
  "\<lparr>applied_version = 1, applied_name = ''1-init.sql'', applied_md5 = ''md5:CREATE TABLE t;''\<rparr>
     \<in> set (migrations ledger1)
   \<and> map_of [(''1-init.sql'', ''DROP TABLE t;''), (''2-next.sql'', ''CREATE TABLE u;'')] ''1-init.sql''
       = Some ''DROP TABLE t;''
   \<and> md5_hex demoEnv ''DROP TABLE t;'' \<noteq> ''md5:CREATE TABLE t;''
   \<and> runMigrationForSchema demoEnv
         [(''1-init.sql'', ''DROP TABLE t;''), (''2-next.sql'', ''CREATE TABLE u;'')] ledger1
       = (Some (TamperedMigration ''1-init.sql'' ''md5:CREATE TABLE t;'' ''md5:DROP TABLE t;''),
          ledger1)"
proof -
  let ?row = "\<lparr>applied_version = 1, applied_name = ''1-init.sql'',
               applied_md5 = ''md5:CREATE TABLE t;''\<rparr>"
  let ?dir = "[(''1-init.sql'', ''DROP TABLE t;''), (''2-next.sql'', ''CREATE TABLE u;'')]"
  have 1: "?row \<in> set (migrations ledger1)" by (simp add: ledger1_def)
  have 2: "map_of ?dir (applied_name ?row) = Some ''DROP TABLE t;''" by simp
  have 3: "md5_hex demoEnv ''DROP TABLE t;'' \<noteq> applied_md5 ?row" by (simp add: demoEnv_def)
  have 4: "getDbClient demoEnv = None \<and> mkdir demoEnv = None" by (simp add: demoEnv_def)
  have 5: "getPendingMigration (setupDBSchemaAndGetAppliedMigrations ledger1) (map fst ?dir)
        = Inr [\<lparr>name = ''2-next.sql'', version = 2, fullPath = ''2-next.sql''\<rparr>]"
    by (simp add: run_defs eval_defs ledger1_def)
  have 6: "\<forall>other\<in>set (migrations ledger1).
              other \<noteq> ?row \<and> applied_version other \<le> applied_version ?row
              \<longrightarrow> getFileMd5 demoEnv ?dir (applied_name other) = Inr (applied_md5 other)"
    by (simp add: ledger1_def)
  from tampered_applied_migration_stops_run [OF 1 2 3] 4 5 6
  have "runMigrationForSchema demoEnv ?dir ledger1
       = (Some (TamperedMigration ''1-init.sql'' ''md5:CREATE TABLE t;'' ''md5:DROP TABLE t;''),
          ledger1)"
    by (simp add: demoEnv_def)
  with 1 2 3 show ?thesis by simp
qed

text \<open>
  The claim as stated promises the tamper error for every changed file.  Here the file of
  the applied version 1 is changed and version 2 is missing from the directory: the run
  fails with the sequence violation, which is checked first.  And no digest of a fixed
  length tells every two texts apart, so a changed text is detected only when its digest
  differs.
\<close>

theorem tamper_masked_by_sequence_violation:
  "\<lparr>applied_version = 1, applied_name = ''1-init.sql'', applied_md5 = ''md5:CREATE TABLE t;''\<rparr>
     \<in> set (migrations ledger1)
   \<and> map_of [(''1-init.sql'', ''DROP TABLE t;''), (''3-skipped.sql'', ''CREATE TABLE u;'')] ''1-init.sql''
       = Some ''DROP TABLE t;''
   \<and> md5_hex demoEnv ''DROP TABLE t;'' \<noteq> ''md5:CREATE TABLE t;''
   \<and> runMigrationForSchema demoEnv
         [(''1-init.sql'', ''DROP TABLE t;''), (''3-skipped.sql'', ''CREATE TABLE u;'')] ledger1
       = (Some (SequenceViolation 2 ''3-skipped.sql''), ledger1)
   \<and> \<not> (\<exists>digest :: string \<Rightarrow> string. (\<forall>body. length (digest body) = 32) \<and> inj digest)"
proof -
  have "\<not> (\<exists>digest :: string \<Rightarrow> string. (\<forall>body. length (digest body) = 32) \<and> inj digest)"
    using no_injective_fixed_length_digest by blast
  moreover have "runMigrationForSchema demoEnv
         [(''1-init.sql'', ''DROP TABLE t;''), (''3-skipped.sql'', ''CREATE TABLE u;'')] ledger1
       = (Some (SequenceViolation 2 ''3-skipped.sql''), ledger1)"
    by (simp add: run_defs eval_defs ledger1_def)
  ultimately show ?thesis by (simp add: ledger1_def demoEnv_def)
qed

text \<open>
  Claim C3, as amended.  When the file of an applied ledger entry is absent from the
  directory, the next run of the namespace fails and leaves the database, and with it
  the ledger, exactly as it was: no pending migration is executed.  The failure is the
  applied-migration-missing error for that file when the connection and the directory are
  available, the sequence check passes and every other applied entry of an equal or lower
  version is intact; otherwise it is the failure met first.
\<close>

theorem missing_applied_migration_stops_run:
  assumes "row \<in> set (migrations s)"
    and "map_of dir (applied_name row) = None"
  shows "(\<exists>e. runMigrationForSchema env dir s = (Some e, s))
    \<and> (getDbClient env = None \<and> mkdir env = None
        \<and> (\<exists>pending. getPendingMigration (setupDBSchemaAndGetAppliedMigrations s) (map fst dir)
                        = Inr pending)
        \<and> (\<forall>other\<in>set (migrations s).
              other \<noteq> row \<and> applied_version other \<le> applied_version row
              \<longrightarrow> getFileMd5 env dir (applied_name other) = Inr (applied_md5 other))
        \<longrightarrow> runMigrationForSchema env dir s
              = (Some (AppliedMigrationMissing (applied_name row)), s))"
proof (intro conjI)
  have "getFileMd5 env dir (applied_name row) \<noteq> Inr (applied_md5 row)"
    using assms(2) by (simp add: getFileMd5_def)
  moreover from assms(1) have "row \<in> set (setupDBSchemaAndGetAppliedMigrations s)"
    by (simp add: setupDBSchemaAndGetAppliedMigrations_def)
  ultimately obtain e where "validateApplied env dir (setupDBSchemaAndGetAppliedMigrations s) = Some e"
    using validateApplied_detects by blast
  then show "\<exists>e. runMigrationForSchema env dir s = (Some e, s)"
    by (rule runMigrationForSchema_integrity_fails)
next
  show "getDbClient env = None \<and> mkdir env = None
        \<and> (\<exists>pending. getPendingMigration (setupDBSchemaAndGetAppliedMigrations s) (map fst dir)
                        = Inr pending)
        \<and> (\<forall>other\<in>set (migrations s).
              other \<noteq> row \<and> applied_version other \<le> applied_version row
              \<longrightarrow> getFileMd5 env dir (applied_name other) = Inr (applied_md5 other))
        \<longrightarrow> runMigrationForSchema env dir s
              = (Some (AppliedMigrationMissing (applied_name row)), s)"
  proof
    assume a: "getDbClient env = None \<and> mkdir env = None
        \<and> (\<exists>pending. getPendingMigration (setupDBSchemaAndGetAppliedMigrations s) (map fst dir)
                        = Inr pending)
        \<and> (\<forall>other\<in>set (migrations s).
              other \<noteq> row \<and> applied_version other \<le> applied_version row
              \<longrightarrow> getFileMd5 env dir (applied_name other) = Inr (applied_md5 other))"
    then obtain pending where p:
      "getPendingMigration (setupDBSchemaAndGetAppliedMigrations s) (map fst dir) = Inr pending"
      by blast
    from a earlier_rows_checked_first [OF assms(1)] obtain before after where
      "setupDBSchemaAndGetAppliedMigrations s = before @ row # after"
      "validateApplied env dir before = None" by blast
    with validateApplied_missing [OF _ assms(2)]
    have "validateApplied env dir (setupDBSchemaAndGetAppliedMigrations s)
            = Some (AppliedMigrationMissing (applied_name row))"
      by simp
    with a p show "runMigrationForSchema env dir s
              = (Some (AppliedMigrationMissing (applied_name row)), s)"
      by (simp add: runMigrationForSchema_integrity_error)
  qed
qed

theorem missing_witness:
  "\<lparr>applied_version = 1, applied_name = ''1-init.sql'', applied_md5 = ''md5:CREATE TABLE t;''\<rparr>
     \<in> set (migrations ledger1)
   \<and> map_of [(''2-next.sql'', ''CREATE TABLE u;'')] ''1-init.sql'' = None
   \<and> runMigrationForSchema demoEnv [(''2-next.sql'', ''CREATE TABLE u;'')] ledger1
       = (Some (AppliedMigrationMissing ''1-init.sql''), ledger1)"
proof -
  let ?row = "\<lparr>applied_version = 1, applied_name = ''1-init.sql'',
               applied_md5 = ''md5:CREATE TABLE t;''\<rparr>"
  let ?dir = "[(''2-next.sql'', ''CREATE TABLE u;'')]"
  have 1: "?row \<in> set (migrations ledger1)" by (simp add: ledger1_def)
  have 2: "map_of ?dir (applied_name ?row) = None" by simp
  have 4: "getDbClient demoEnv = None \<and> mkdir demoEnv = None" by (simp add: demoEnv_def)
  have 5: "getPendingMigration (setupDBSchemaAndGetAppliedMigrations ledger1) (map fst ?dir)
        = Inr [\<lparr>name = ''2-next.sql'', version = 2, fullPath = ''2-next.sql''\<rparr>]"
    by (simp add: run_defs eval_defs ledger1_def)
  have 6: "\<forall>other\<in>set (migrations ledger1).
              other \<noteq> ?row \<and> applied_version other \<le> applied_version ?row
              \<longrightarrow> getFileMd5 demoEnv ?dir (applied_name other) = Inr (applied_md5 other)"
    by (simp add: ledger1_def)
  from missing_applied_migration_stops_run [OF 1 2] 4 5 6
  have "runMigrationForSchema demoEnv ?dir ledger1
       = (Some (AppliedMigrationMissing ''1-init.sql''), ledger1)"
    by simp
  with 1 2 show ?thesis by simp
qed

text \<open>
  The claim as stated promises the missing-file error for every absent file.  Here the
  file of the applied version 2 is absent and the file of version 1 is edited: the run
  fails with the MD5 mismatch of version 1, which is checked first.
\<close>

theorem missing_masked_by_tampered:
  "\<lparr>applied_version = 2, applied_name = ''2-b.sql'', applied_md5 = ''md5:b''\<rparr>
     \<in> set (migrations ledger12)
   \<and> map_of [(''1-a.sql'', ''edited'')] ''2-b.sql'' = None
   \<and> runMigrationForSchema demoEnv [(''1-a.sql'', ''edited'')] ledger12
       = (Some (TamperedMigration ''1-a.sql'' ''md5:a'' ''md5:edited''), ledger12)"
  by (simp add: run_defs eval_defs ledger12_def)

subsection \<open>The top-level driver swallows failures\<close>

text \<open>
  Claim C9.  No exception leaves \<open>handleMigration\<close>: whatever failure the run of the
  namespace raises (connection, directory, sequence check, check of the applied
  migrations, a migration), it is caught and logged as \<open>Migration process failed\<close>, and
  \<open>main\<close> ends the process with exit status 0.
\<close>

theorem handleMigration_swallows_failures:
  "fst (handleMigration env dir s) = None
   \<and> fst (main env dir s) = 0
   \<and> (\<forall>e s'. runMigrationForSchema env dir s = (Some e, s') \<longrightarrow>
         handleMigration env dir s = (None, [LogError ''Migration process failed:'' e], s')
         \<and> main env dir s =
             (0, [LogError ''Migration process failed:'' e, LogInfo ''Migration script exiting...''], s'))"
  by (auto simp: handleMigration_def handleMigrationBody_def main_def
      split: prod.splits option.splits)


theorem handleMigration_witness:
  "runMigrationForSchema demoEnv [(''1-init.sql'', ''DROP TABLE t;'')] ledger1
     = (Some (TamperedMigration ''1-init.sql'' ''md5:CREATE TABLE t;'' ''md5:DROP TABLE t;''), ledger1)
   \<and> main demoEnv [(''1-init.sql'', ''DROP TABLE t;'')] ledger1
     = (0, [LogError ''Migration process failed:''
              (TamperedMigration ''1-init.sql'' ''md5:CREATE TABLE t;'' ''md5:DROP TABLE t;''),
            LogInfo ''Migration script exiting...''], ledger1)
   \<and> fst (handleMigration demoEnv [(''1-init.sql'', ''DROP TABLE t;'')] ledger1) = None"
proof -
  have r: "runMigrationForSchema demoEnv [(''1-init.sql'', ''DROP TABLE t;'')] ledger1
     = (Some (TamperedMigration ''1-init.sql'' ''md5:CREATE TABLE t;'' ''md5:DROP TABLE t;''), ledger1)"
    by (simp add: run_defs eval_defs ledger1_def)
  from handleMigration_swallows_failures
    [where env = demoEnv and dir = "[(''1-init.sql'', ''DROP TABLE t;'')]" and s = ledger1] r
  show ?thesis by simp
qed

lemma spec_ledgerRows_version:
  "row \<in> set (spec_ledgerRows env dir m) \<Longrightarrow> applied_version row = version m \<and> applied_name row = name m"
  by (auto simp: spec_ledgerRows_def split: option.splits)



lemma runPending_trace:
  assumes "\<forall>m\<in>set ms. discovered m" "runPending env dir ms s = (r, s')"
  shows "\<exists>ran rest tail. ms = ran @ rest
     \<and> migrations s' = migrations s @ concat (map (spec_ledgerRows env dir) ran)
     \<and> statements s' = statements s @ concat (map (spec_appliedStatements env dir) ran) @ tail
     \<and> (\<forall>m\<in>set ran. spec_ledgerRows env dir m \<noteq> [])
     \<and> (r = None \<longrightarrow> rest = [] \<and> tail = [])
     \<and> (\<forall>v n h. InsertRow v n h \<notin> set tail)"
  using assms
proof (induction ms arbitrary: s)
  case Nil
  then show ?case by simp
next
  case (Cons m ms)
  from Cons.prems(1) have d: "discovered m" and ds: "\<forall>m\<in>set ms. discovered m" by auto
  obtain r1 s1 where u: "up env dir m s = (r1, s1)" by (cases "up env dir m s")
  show ?case
  proof (cases r1)
    case (Some e)
    with u Cons.prems(2) have "r = Some (MigrationFailed (name m) e)" "s' = s1" by simp_all
    moreover from u Some have "statements s1 = statements s @ [Begin, Rollback]
         \<or> statements s1 = statements s @ [Begin, RunMigration (name m), Rollback]"
      by (simp add: up_failure)
    moreover from u have "migrations s1 = migrations s" by (rule up_unchanged)
    ultimately have "m # ms = [] @ (m # ms)
      \<and> migrations s' = migrations s @ concat (map (spec_ledgerRows env dir) [])
      \<and> (\<exists>tail. statements s' = statements s @ concat (map (spec_appliedStatements env dir) []) @ tail
            \<and> (r = None \<longrightarrow> m # ms = [] \<and> tail = [])
            \<and> (\<forall>v n h. InsertRow v n h \<notin> set tail))"
      by auto
    then show ?thesis by (metis empty_iff list.set(1))
  next
    case None
    note u = u [unfolded None]
    obtain r2 s2 where l: "logMigration env dir m s1 = (r2, s2)"
      by (cases "logMigration env dir m s1")
    show ?thesis
    proof (cases r2)
      case (Some e)
      with l have "s2 = s1" by (simp add: logMigration_failure)
      with Some u l Cons.prems(2) have "r = Some e" "s' = s1" by simp_all
      moreover from u have "statements s1 = statements s @ [Begin, RunMigration (name m), Commit]"
        by (rule up_success)
      moreover from u have "migrations s1 = migrations s" by (rule up_unchanged)
      ultimately have "m # ms = [] @ (m # ms)
        \<and> migrations s' = migrations s @ concat (map (spec_ledgerRows env dir) [])
        \<and> (\<exists>tail. statements s' = statements s @ concat (map (spec_appliedStatements env dir) []) @ tail
              \<and> (r = None \<longrightarrow> m # ms = [] \<and> tail = [])
              \<and> (\<forall>v n h. InsertRow v n h \<notin> set tail))"
        by auto
      then show ?thesis by (metis empty_iff list.set(1))
    next
      case n2: None
      note l = l [unfolded n2]
      from u l Cons.prems(2) have r: "runPending env dir ms s2 = (r, s')" by simp
      from Cons.IH [OF ds r] obtain ran rest tail where ih:
        "ms = ran @ rest"
        "migrations s' = migrations s2 @ concat (map (spec_ledgerRows env dir) ran)"
        "statements s' = statements s2 @ concat (map (spec_appliedStatements env dir) ran) @ tail"
        "\<forall>m\<in>set ran. spec_ledgerRows env dir m \<noteq> []"
        "r = None \<longrightarrow> rest = [] \<and> tail = []"
        "\<forall>v n h. InsertRow v n h \<notin> set tail" by blast
      have m2: "migrations s2 = migrations s @ spec_ledgerRows env dir m"
        using up_unchanged(1) [OF u] logMigration_success(1) [OF d l] by simp
      have st2: "statements s2 = statements s @ spec_appliedStatements env dir m"
        using up_success [OF u] logMigration_success(2) [OF d l]
        by (simp add: spec_appliedStatements_def)
      have ne: "spec_ledgerRows env dir m \<noteq> []" using logMigration_success(5) [OF d l] .
      have "m # ms = (m # ran) @ rest
        \<and> migrations s' = migrations s @ concat (map (spec_ledgerRows env dir) (m # ran))
        \<and> statements s' = statements s @ concat (map (spec_appliedStatements env dir) (m # ran)) @ tail
        \<and> (\<forall>m\<in>set (m # ran). spec_ledgerRows env dir m \<noteq> [])
        \<and> (r = None \<longrightarrow> rest = [] \<and> tail = [])
        \<and> (\<forall>v n h. InsertRow v n h \<notin> set tail)"
        using ih m2 st2 ne by simp
      then show ?thesis by blast
    qed
  qed
qed



lemma run_trace:
  assumes "runMigrationForSchema env dir s = (r, s')"
  shows "\<exists>ran tail.
       sorted_wrt (\<lambda>a b. version a < version b) ran
     \<and> set ran \<subseteq> {m \<in> set (allMigrations (map fst dir)).
                       version m \<notin> applied_version ` set (migrations s)}
     \<and> (\<forall>m\<in>set ran. discovered m \<and> spec_ledgerRows env dir m \<noteq> [])
     \<and> statements s' = statements s @ concat (map (spec_appliedStatements env dir) ran) @ tail
     \<and> migrations s' = migrations s @ concat (map (spec_ledgerRows env dir) ran)
     \<and> (\<forall>v n h. InsertRow v n h \<notin> set tail)
     \<and> (r = None \<and> ledgerNamesMatch s \<longrightarrow>
          getPendingMigration (setupDBSchemaAndGetAppliedMigrations s) (map fst dir) = Inr ran
          \<and> tail = [Commit])"
proof -
  from runMigrationForSchema_early [of env dir s]
  consider (early) e where "runMigrationForSchema env dir s = (Some e, s)"
    | (runs) pending where "getDbClient env = None" "mkdir env = None"
        "getPendingMigration (setupDBSchemaAndGetAppliedMigrations s) (map fst dir) = Inr pending"
        "validateApplied env dir (setupDBSchemaAndGetAppliedMigrations s) = None"
    by blast
  then show ?thesis
  proof cases
    case early
    with assms have "r = Some e" "s' = s" by simp_all
    then have "sorted_wrt (\<lambda>a b. version a < version b) []
     \<and> set [] \<subseteq> {m \<in> set (allMigrations (map fst dir)).
                       version m \<notin> applied_version ` set (migrations s)}
     \<and> (\<forall>m\<in>set []. discovered m \<and> spec_ledgerRows env dir m \<noteq> [])
     \<and> statements s' = statements s @ concat (map (spec_appliedStatements env dir) []) @ []
     \<and> migrations s' = migrations s @ concat (map (spec_ledgerRows env dir) [])
     \<and> (\<forall>v n h. InsertRow v n h \<notin> set [])
     \<and> (r = None \<and> ledgerNamesMatch s \<longrightarrow>
          getPendingMigration (setupDBSchemaAndGetAppliedMigrations s) (map fst dir) = Inr []
          \<and> [] = [Commit])"
      by simp
    then show ?thesis by blast
  next
    case runs
    let ?ms = "filter (\<lambda>m. name m \<notin> applied_name ` set (migrations s)) pending"
    note pp = pending_properties [OF runs(3)]
    obtain r0 s0 where rp: "runPending env dir ?ms s = (r0, s0)"
      by (cases "runPending env dir ?ms s")
    have dm: "\<forall>m\<in>set ?ms. discovered m" using pp(3) by simp
    from runPending_trace [OF dm rp] obtain ran rest tail0 where tr:
      "?ms = ran @ rest"
      "migrations s0 = migrations s @ concat (map (spec_ledgerRows env dir) ran)"
      "statements s0 = statements s @ concat (map (spec_appliedStatements env dir) ran) @ tail0"
      "\<forall>m\<in>set ran. spec_ledgerRows env dir m \<noteq> []"
      "r0 = None \<longrightarrow> rest = [] \<and> tail0 = []"
      "\<forall>v n h. InsertRow v n h \<notin> set tail0" by blast
    have "sorted_wrt (\<lambda>a b. version a < version b) ?ms"
      using pp(2) by (rule sorted_wrt_filter)
    with tr(1) have srt: "sorted_wrt (\<lambda>a b. version a < version b) ran"
      by (simp add: sorted_wrt_append)
    have "set ran \<subseteq> set ?ms" using tr(1) by (metis set_append Un_upper1)
    then have sub: "set ran \<subseteq> set pending" by auto
    with pp(1) have sub': "set ran \<subseteq> {m \<in> set (allMigrations (map fst dir)).
                       version m \<notin> applied_version ` set (migrations s)}" by simp
    from sub pp(3) tr(4) have dr: "\<forall>m\<in>set ran. discovered m \<and> spec_ledgerRows env dir m \<noteq> []"
      by auto
    from assms rp runMigrationForSchema_pending [OF runs]
    have res: "(r, s') = (case r0 of Some e \<Rightarrow> (Some e, s0) | None \<Rightarrow> (None, queryCommit s0))"
      by (simp split: option.splits)
    show ?thesis
    proof (cases r0)
      case None
      with res have r: "r = None" and s': "s' = queryCommit s0" by simp_all
      from None tr(5) have e: "rest = []" "tail0 = []" by simp_all
      have "ledgerNamesMatch s \<longrightarrow> pending = ran"
        using pending_not_executed [OF _ runs(3)] tr(1) e(1) by auto
      with srt sub' dr tr(2,3) e s' runs(3)
      have "sorted_wrt (\<lambda>a b. version a < version b) ran
       \<and> set ran \<subseteq> {m \<in> set (allMigrations (map fst dir)).
                       version m \<notin> applied_version ` set (migrations s)}
       \<and> (\<forall>m\<in>set ran. discovered m \<and> spec_ledgerRows env dir m \<noteq> [])
       \<and> statements s' = statements s @ concat (map (spec_appliedStatements env dir) ran) @ [Commit]
       \<and> migrations s' = migrations s @ concat (map (spec_ledgerRows env dir) ran)
       \<and> (\<forall>v n h. InsertRow v n h \<notin> set [Commit])
       \<and> (r = None \<and> ledgerNamesMatch s \<longrightarrow>
            getPendingMigration (setupDBSchemaAndGetAppliedMigrations s) (map fst dir) = Inr ran
            \<and> [Commit] = [Commit])"
        by (auto simp: queryCommit_def)
      then show ?thesis by blast
    next
      case (Some e)
      with res have r: "r = Some e" and s': "s' = s0" by simp_all
      with srt sub' dr tr(2,3,6)
      have "sorted_wrt (\<lambda>a b. version a < version b) ran
       \<and> set ran \<subseteq> {m \<in> set (allMigrations (map fst dir)).
                       version m \<notin> applied_version ` set (migrations s)}
       \<and> (\<forall>m\<in>set ran. discovered m \<and> spec_ledgerRows env dir m \<noteq> [])
       \<and> statements s' = statements s @ concat (map (spec_appliedStatements env dir) ran) @ tail0
       \<and> migrations s' = migrations s @ concat (map (spec_ledgerRows env dir) ran)
       \<and> (\<forall>v n h. InsertRow v n h \<notin> set tail0)
       \<and> (r = None \<and> ledgerNamesMatch s \<longrightarrow>
            getPendingMigration (setupDBSchemaAndGetAppliedMigrations s) (map fst dir) = Inr ran
            \<and> tail0 = [Commit])"
        by simp
      then show ?thesis by blast
    qed
  qed
qed





subsection \<open>A second run\<close>


lemma ledgerNamesMatch_preserved:
  assumes "ledgerNamesMatch s" "runMigrationForSchema env dir s = (r, s')"
  shows "ledgerNamesMatch s'"
proof -
  from run_trace [OF assms(2)] obtain ran where
    d: "\<forall>m\<in>set ran. discovered m \<and> spec_ledgerRows env dir m \<noteq> []"
    and m: "migrations s' = migrations s @ concat (map (spec_ledgerRows env dir) ran)" by blast
  have "\<forall>row\<in>set (concat (map (spec_ledgerRows env dir) ran)).
          extractVersion (applied_name row) = Some (applied_version row)"
    using d by (auto simp: discovered_def dest!: spec_ledgerRows_version)
  with assms(1) m show ?thesis by (auto simp: ledgerNamesMatch_def)
qed





subsection \<open>A migration that fails\<close>



end
